theory Spec2Isabelle
  imports Main "HOL-Library.Sublist"
begin

section \<open>Text: characters, strip, upper, replace\<close>

text \<open>
  Python strings are modelled as lists of \<^typ>\<open>char\<close>, each read as a code point
  in 0..255. The character classes below are the ones Python's \<open>re\<close> and \<open>str\<close>
  use for \<open>str\<close> arguments, restricted to that range: \<open>\d\<close> is the decimal digits,
  \<open>\w\<close> is \<open>str.isalnum\<close> or underscore, and \<open>strip()\<close> removes
  \<open>str.isspace\<close> characters.
\<close>

definition code :: "char \<Rightarrow> nat" where
  "code c = of_char c"

definition between :: "nat \<Rightarrow> nat \<Rightarrow> char \<Rightarrow> bool" where
  "between lo hi c = (lo \<le> code c \<and> code c \<le> hi)"

definition is_digit :: "char \<Rightarrow> bool" where
  "is_digit c = between 48 57 c"

definition is_word :: "char \<Rightarrow> bool" where
  "is_word c =
     (between 48 57 c \<or> between 65 90 c \<or> code c = 95 \<or> between 97 122 c \<or>
      code c = 170 \<or> between 178 179 c \<or> code c = 181 \<or> between 185 186 c \<or>
      between 188 190 c \<or> between 192 214 c \<or> between 216 246 c \<or> between 248 255 c)"

definition is_space :: "char \<Rightarrow> bool" where
  "is_space c = (between 9 13 c \<or> between 28 32 c \<or> code c = 133 \<or> code c = 160)"

text \<open>\<open>str.strip()\<close>: leading and trailing whitespace removed.\<close>

definition strip :: "string \<Rightarrow> string" where
  "strip s = rev (dropWhile is_space (rev (dropWhile is_space s)))"

text \<open>
  \<open>str.upper()\<close>. The source applies it only to a match of the order pattern, whose
  characters are ASCII letters and digits; on other characters of the range it is
  left as the identity here.
\<close>

definition upper_char :: "char \<Rightarrow> char" where
  "upper_char c = (if between 97 122 c then char_of (code c - 32) else c)"

definition upper :: "string \<Rightarrow> string" where
  "upper s = map upper_char s"

text \<open>
  \<open>s.replace(old, "")\<close>: every non-overlapping occurrence of \<open>old\<close> is removed,
  scanning from the left. The counter is the number of characters of the current
  occurrence still to be skipped. With an empty \<open>old\<close> the string is unchanged.
\<close>

fun remove_from :: "string \<Rightarrow> nat \<Rightarrow> string \<Rightarrow> string" where
  "remove_from old k [] = []"
| "remove_from old (Suc k) (c # cs) = remove_from old k cs"
| "remove_from old 0 (c # cs) =
     (if old \<noteq> [] \<and> prefix old (c # cs) then remove_from old (length old - 1) cs
      else c # remove_from old 0 cs)"

definition replace_empty :: "string \<Rightarrow> string \<Rightarrow> string" where
  "replace_empty s old = remove_from old 0 s"

section \<open>The two regular expressions\<close>

text \<open>
  \<open>re.search\<close> is a backtracking matcher: it tries each start position from the left
  and, at a position, the alternatives of each quantifier from the longest to the
  shortest. A pattern is a sequence of atoms: one character of a class, a greedy
  repetition of a class with bounds, and the word boundary \<open>\b\<close>.
\<close>

datatype atom = Chr "char \<Rightarrow> bool" | Rep nat "nat option" "char \<Rightarrow> bool" | Bnd

definition word_opt :: "char option \<Rightarrow> bool" where
  "word_opt p = (case p of None \<Rightarrow> False | Some c \<Rightarrow> is_word c)"

definition at_boundary :: "char option \<Rightarrow> string \<Rightarrow> bool" where
  "at_boundary prev s = (word_opt prev \<noteq> word_opt (case s of [] \<Rightarrow> None | c # _ \<Rightarrow> Some c))"

text \<open>
  \<open>rx_match as prev s\<close>: the lengths of the matches of the atoms at the head of
  \<open>s\<close>, in the order the matcher would find them; \<open>prev\<close> is the character before
  the current position.
\<close>

fun rx_match :: "atom list \<Rightarrow> char option \<Rightarrow> string \<Rightarrow> nat list" where
  "rx_match [] prev s = [0]"
| "rx_match (Bnd # as) prev s = (if at_boundary prev s then rx_match as prev s else [])"
| "rx_match (Chr p # as) prev [] = []"
| "rx_match (Chr p # as) prev (c # cs) =
     (if p c then map Suc (rx_match as (Some c) cs) else [])"
| "rx_match (Rep lo hi p # as) prev s =
     (let n = length (takeWhile p s);
          m = (case hi of None \<Rightarrow> n | Some h \<Rightarrow> min h n)
      in concat (map (\<lambda>k. map ((+) k)
                   (rx_match as (if k = 0 then prev else Some (s ! (k - 1))) (drop k s)))
                 (rev [lo..<Suc m])))"

fun search_from :: "atom list \<Rightarrow> char option \<Rightarrow> string \<Rightarrow> string option" where
  "search_from as prev [] = (case rx_match as prev [] of [] \<Rightarrow> None | k # _ \<Rightarrow> Some [])"
| "search_from as prev (c # cs) =
     (case rx_match as prev (c # cs) of
        [] \<Rightarrow> search_from as (Some c) cs
      | k # _ \<Rightarrow> Some (take k (c # cs)))"

text \<open>\<open>re.search(pattern, s)\<close>, returning \<open>group(0)\<close> of the match.\<close>

definition re_search :: "atom list \<Rightarrow> string \<Rightarrow> string option" where
  "re_search as s = search_from as None s"

text \<open>The mailbox pattern \<open>[\w\.-]+@[\w\.-]+\.\w+\<close>.\<close>

definition mail_char :: "char \<Rightarrow> bool" where
  "mail_char c = (is_word c \<or> c = CHR ''.'' \<or> c = CHR ''-'')"

definition email_rx :: "atom list" where
  "email_rx = [Rep 1 None mail_char, Chr (\<lambda>c. c = CHR ''@''), Rep 1 None mail_char,
               Chr (\<lambda>c. c = CHR ''.''), Rep 1 None is_word]"

text \<open>The order pattern \<open>\bXRD\d{4,6}\b\<close> under \<open>re.IGNORECASE\<close>.\<close>

definition order_rx :: "atom list" where
  "order_rx = [Bnd, Chr (\<lambda>c. c = CHR ''X'' \<or> c = CHR ''x''),
               Chr (\<lambda>c. c = CHR ''R'' \<or> c = CHR ''r''),
               Chr (\<lambda>c. c = CHR ''D'' \<or> c = CHR ''d''),
               Rep 4 (Some 6) is_digit, Bnd]"

text \<open>\<open>str(n)\<close> for an integer, as an f-string renders it.\<close>

fun str_nat :: "nat \<Rightarrow> string" where
  "str_nat n = (if n < 10 then [char_of (48 + n)] else str_nat (n div 10) @ [char_of (48 + n mod 10)])"

definition str_int :: "int \<Rightarrow> string" where
  "str_int i = (if i < 0 then CHR ''-'' # str_nat (nat (- i)) else str_nat (nat i))"

text \<open>\<open>sep.join(xs)\<close>.\<close>

fun join :: "string \<Rightarrow> string list \<Rightarrow> string" where
  "join sep [] = []"
| "join sep [x] = x"
| "join sep (x # y # ys) = x @ sep @ join sep (y # ys)"

section \<open>Data model\<close>

text \<open>
  A verdict is the JSON object the vision collaborator returns, as an association
  list from keys to values (\<open>verdict.get(k)\<close> is \<^const>\<open>map_of\<close>); the empty
  list is the empty object. Field values are JSON scalars; floats and nested values
  are left out, since the agent only compares a field with a string and renders it.
\<close>

datatype json = JNull | JBool bool | JInt int | JStr string

type_synonym verdict = "(string \<times> json) list"

text \<open>How an f-string renders a JSON value and an optional string.\<close>

fun json_str :: "json \<Rightarrow> string" where
  "json_str JNull = ''None''"
| "json_str (JBool b) = (if b then ''True'' else ''False'')"
| "json_str (JInt i) = str_int i"
| "json_str (JStr s) = s"

definition opt_str :: "string option \<Rightarrow> string" where
  "opt_str x = (case x of None \<Rightarrow> ''None'' | Some s \<Rightarrow> s)"

record hist_entry =
  role :: string
  content :: string

record AgentState =
  session_id :: string
  user_message :: string
  sentiment_score :: int
  intent :: string
  language :: string
  order_id :: "string option"
  complaint :: "string option"
  image_path :: "string option"
  image_verdict :: "verdict option"
  refund_status :: string
  email :: "string option"
  current_node :: string
  response_message :: string
  needs_input :: bool
  conversation_history :: "hist_entry list"

text \<open>Truthiness of an \<open>Optional[str]\<close> and of an \<open>Optional[dict]\<close>.\<close>

definition truthy :: "string option \<Rightarrow> bool" where
  "truthy x = (case x of None \<Rightarrow> False | Some s \<Rightarrow> s \<noteq> [])"

definition truthy_dict :: "verdict option \<Rightarrow> bool" where
  "truthy_dict x = (case x of None \<Rightarrow> False | Some v \<Rightarrow> v \<noteq> [])"

text \<open>An order of \<open>data/orders.json\<close>, and the catalog \<open>orders_db\<close> as a map.\<close>

record item =
  name :: string
  quantity :: int
  price :: int

record order =
  items :: "item list"
  total_amount :: int

text \<open>The text classifier's answer.\<close>

record analysis =
  an_intent :: string
  an_sentiment_score :: int
  an_language :: string

text \<open>One entry of \<open>refunds.json\<close>.\<close>

record ledger_entry =
  entry_session_id :: string
  entry_order_id :: "string option"
  entry_status :: string
  entry_email :: "string option"

text \<open>
  The collaborators of one walk: the order catalog, the text classifier
  (\<open>SentimentIntentAnalyzer.analyze\<close>), the vision verifier
  (\<open>VisionAnalyzer.analyze_product_image\<close>, given the image path and the context)
  and the receipt renderer (\<open>ReportGenerator.generate_receipt\<close>, whose text holds a
  random transaction id and the time).
\<close>

record env =
  orders_db :: "string \<rightharpoonup> order"
  analyze :: "string \<Rightarrow> analysis"
  analyze_product_image :: "string option \<Rightarrow> string \<Rightarrow> verdict"
  generate_receipt :: "order option \<Rightarrow> verdict \<Rightarrow> string"

datatype node = IntentReviewer | Collector | ImageAnalyzer | Decision | Finalizer

text \<open>
  What \<open>json.load\<close> makes of the ledger file \<open>refunds.json\<close>: it raises (the
  file is missing or is not JSON), it returns a list, or it returns another JSON
  value (an object, \<open>null\<close>, a number, a string). The elements of a list are
  taken to be entries; the Finalizer appends to the list and does not read them.
\<close>

datatype refunds_file = Unreadable | JsonList "ledger_entry list" | JsonOther

text \<open>
  What a walk does outside the state: the ledger file, the receipts handed to
  \<open>EmailSender.send_receipt\<close> with its three arguments, the calls of the vision
  verifier and of the text classifier, and the stages executed.
\<close>

record world =
  refunds_json :: refunds_file
  sent :: "(string option \<times> string \<times> string) list"
  vision_calls :: "(string option \<times> string) list"
  analyzer_calls :: "string list"
  visited :: "node list"

datatype error = KeyError | AttributeError

type_synonym result = "(error + AgentState) \<times> world"

section \<open>The stages of \<open>RefundAgent\<close>\<close>

definition update_history :: "string \<Rightarrow> string \<Rightarrow> hist_entry list" where
  "update_history r c = [\<lparr>role = r, content = c\<rparr>]"

definition is_valid_email :: "string option \<Rightarrow> bool" where
  "is_valid_email text =
     (case text of None \<Rightarrow> False | Some t \<Rightarrow> t \<noteq> [] \<and> re_search email_rx t \<noteq> None)"

text \<open>
  The pair of assignments every prompt is made of:
  \<open>state["response_message"] = msg\<close> and
  \<open>state["conversation_history"] = self._update_history("assistant", msg)\<close>.
\<close>

definition say :: "string \<Rightarrow> AgentState \<Rightarrow> AgentState" where
  "say msg state =
     state\<lparr>response_message := msg, conversation_history := update_history ''assistant'' msg\<rparr>"

definition intent_reviewer_node :: "env \<Rightarrow> world \<Rightarrow> AgentState \<Rightarrow> result" where
  "intent_reviewer_node e w state0 =
     (let state = state0\<lparr>current_node := ''intent_reviewer''\<rparr>;
          user_msg = strip (user_message state);
          state = state\<lparr>conversation_history := update_history ''user'' user_msg\<rparr>
      in if refund_status state = ''approved'' \<and> re_search email_rx user_msg \<noteq> None then
           (Inr (state\<lparr>email := re_search email_rx user_msg, intent := ''finalize_flow''\<rparr>), w)
         else if refund_status state = ''approved'' \<and> \<not> truthy (email state) then
           (Inr ((say ''Please provide a valid email address.'' state)\<lparr>needs_input := True\<rparr>), w)
         else if intent state \<in> {''refund'', ''quality_complaint''} \<and> refund_status state = [] then
           (Inr (state\<lparr>needs_input := False\<rparr>), w)
         else
           (let analysis = analyze e user_msg;
                w = w\<lparr>analyzer_calls := analyzer_calls w @ [user_msg]\<rparr>;
                state = state\<lparr>sentiment_score := an_sentiment_score analysis,
                              intent := an_intent analysis,
                              language := an_language analysis\<rparr>
            in if an_intent analysis = ''general'' then
                 (Inr ((say ''I can help with refunds or complaints. Do you have an Order ID?'' state)
                         \<lparr>needs_input := False\<rparr>), w)
               else (Inr (state\<lparr>needs_input := True\<rparr>), w)))"

datatype intent_route = RouteGeneral | RouteContinue | RouteFinalize

definition route_after_intent :: "AgentState \<Rightarrow> intent_route" where
  "route_after_intent state =
     (if intent state = ''finalize_flow'' then RouteFinalize
      else if intent state = ''general'' then RouteGeneral
      else RouteContinue)"

text \<open>Step 3 of the Collector (the image), where steps 1 and 2 fall through to.\<close>

definition collector_image :: "world \<Rightarrow> AgentState \<Rightarrow> result" where
  "collector_image w state =
     (if \<not> truthy (image_path state) then
        (Inr ((say ''Please upload an image of the received items.'' state)\<lparr>needs_input := True\<rparr>), w)
      else (Inr (state\<lparr>needs_input := False, response_message := ''Analyzing...''\<rparr>), w))"

definition not_found_message :: "string \<Rightarrow> string" where
  "not_found_message oid = ''Order '' @ [CHR 0x27] @ oid @ [CHR 0x27] @ '' not found in database.''"

text \<open>Step 1 of the Collector: an identifier found in the message is bound.\<close>

definition bind_order_id :: "AgentState \<Rightarrow> AgentState" where
  "bind_order_id state =
     (case re_search order_rx (user_message state) of
        None \<Rightarrow> state
      | Some m \<Rightarrow> state\<lparr>order_id := Some (upper m)\<rparr>)"

definition collector_node :: "env \<Rightarrow> world \<Rightarrow> AgentState \<Rightarrow> result" where
  "collector_node e w state0 =
     (let state = state0\<lparr>current_node := ''collector''\<rparr>;
          user_msg = user_message state;
          state = bind_order_id state
      in case order_id state of
           None \<Rightarrow>
             (Inr ((say ''Please provide your Order ID (e.g., XRD12345).'' state)\<lparr>needs_input := True\<rparr>), w)
         | Some oid \<Rightarrow>
             if oid = [] then
               (Inr ((say ''Please provide your Order ID (e.g., XRD12345).'' state)\<lparr>needs_input := True\<rparr>), w)
             else if orders_db e oid = None then
               (Inr ((say (not_found_message oid) state)\<lparr>order_id := None, needs_input := True\<rparr>), w)
             else if \<not> truthy (complaint state) then
               (let clean_msg = strip (replace_empty user_msg oid)
                in if 10 < length clean_msg then
                     collector_image w (state\<lparr>complaint := Some clean_msg\<rparr>)
                   else
                     (Inr ((say ''What is the issue with this order?'' state)\<lparr>needs_input := True\<rparr>), w))
             else collector_image w state)"

datatype collector_route = NeedInput | Ready

definition route_after_collector :: "AgentState \<Rightarrow> collector_route" where
  "route_after_collector state = (if needs_input state then NeedInput else Ready)"

definition vision_context :: "string \<Rightarrow> order \<Rightarrow> string option \<Rightarrow> string" where
  "vision_context oid ord c =
     (let item_list = join '', '' (map (\<lambda>i. str_int (quantity i) @ ''x '' @ name i) (items ord))
      in ''Order ID: '' @ oid @ [CHR 0x0A] @ ''Expected Items: '' @ item_list @ [CHR 0x0A] @
         ''User Complaint: '' @ [CHR 0x27] @ opt_str c @ [CHR 0x27])"

definition image_analyzer_node :: "env \<Rightarrow> world \<Rightarrow> AgentState \<Rightarrow> result" where
  "image_analyzer_node e w state0 =
     (if truthy_dict (image_verdict state0) then (Inr state0, w)
      else
        (let state = state0\<lparr>current_node := ''image_analyzer''\<rparr>
         in case order_id state of
              None \<Rightarrow> (Inl KeyError, w)
            | Some oid \<Rightarrow>
                (case orders_db e oid of
                   None \<Rightarrow> (Inl KeyError, w)
                 | Some ord \<Rightarrow>
                     (let ctx = vision_context oid ord (complaint state);
                          verdict = analyze_product_image e (image_path state) ctx
                      in (Inr (state\<lparr>image_verdict := Some verdict\<rparr>),
                          w\<lparr>vision_calls := vision_calls w @ [(image_path state, ctx)]\<rparr>)))))"

text \<open>The two emoji of the Decision's messages, as their UTF-8 bytes.\<close>

definition check_mark :: string where
  "check_mark = [CHR 0xE2, CHR 0x9C, CHR 0x85]"

definition cross_mark :: string where
  "cross_mark = [CHR 0xE2, CHR 0x9D, CHR 0x8C]"

definition decision_node :: "env \<Rightarrow> world \<Rightarrow> AgentState \<Rightarrow> result" where
  "decision_node e w state0 =
     (let state = state0\<lparr>current_node := ''decision''\<rparr>
      in case image_verdict state of
           None \<Rightarrow> (Inl AttributeError, w)
         | Some verdict \<Rightarrow>
             if map_of verdict ''status'' = Some (JStr ''defective'') then
               (let state = state\<lparr>refund_status := ''approved''\<rparr>
                in if truthy (email state) \<and> is_valid_email (email state) then
                     (Inr (state\<lparr>response_message := ''Refund approved. Sending receipt...'',
                                 needs_input := False\<rparr>), w)
                   else
                     (Inr ((say (check_mark @
                                 '' Refund Approved! Please provide your email address for the receipt.'')
                              state)\<lparr>needs_input := True\<rparr>), w))
             else
               (let state = state\<lparr>refund_status := ''denied''\<rparr>;
                    description = (case map_of verdict ''description'' of
                                     None \<Rightarrow> ''Product acceptable''
                                   | Some d \<Rightarrow> json_str d)
                in (Inr ((say (cross_mark @ '' Refund Denied. Analysis: '' @ description @ ''.'') state)
                           \<lparr>needs_input := False\<rparr>), w)))"

datatype decision_route = AskEmail | Finalize

definition route_after_decision :: "AgentState \<Rightarrow> decision_route" where
  "route_after_decision state =
     (if refund_status state = ''approved'' \<and> \<not> truthy (email state) then AskEmail else Finalize)"

text \<open>
  The tail of the Finalizer (\<open># Log Transaction\<close>): read, append, rewrite. Only
  the read is inside the \<open>try\<close>, whose \<open>except\<close> gives the empty list;
  \<open>refunds.append\<close> comes after it and raises \<open>AttributeError\<close> on a value that
  is not a list, before anything is written.
\<close>

definition log_transaction :: "world \<Rightarrow> AgentState \<Rightarrow> result" where
  "log_transaction w state =
     (let refunds = (case refunds_json w of
                       Unreadable \<Rightarrow> JsonList []
                     | JsonList r \<Rightarrow> JsonList r
                     | JsonOther \<Rightarrow> JsonOther)
      in case refunds of
           JsonList r \<Rightarrow>
             (Inr (state\<lparr>needs_input := False\<rparr>),
              w\<lparr>refunds_json := JsonList (r @ [\<lparr>entry_session_id = session_id state,
                                                entry_order_id = order_id state,
                                                entry_status = refund_status state,
                                                entry_email = email state\<rparr>])\<rparr>)
         | Unreadable \<Rightarrow> (Inl AttributeError, w)
         | JsonOther \<Rightarrow> (Inl AttributeError, w))"

definition finalizer_node :: "env \<Rightarrow> world \<Rightarrow> AgentState \<Rightarrow> result" where
  "finalizer_node e w state =
     (if refund_status state = ''approved'' then
        if \<not> is_valid_email (email state) then
          (Inr ((say ''I still need a valid email address.'' state)\<lparr>needs_input := True\<rparr>), w)
        else
          (case image_verdict state of
             None \<Rightarrow> (Inl AttributeError, w)
           | Some verdict \<Rightarrow>
               (let order_data = (case order_id state of None \<Rightarrow> None | Some oid \<Rightarrow> orders_db e oid);
                    receipt_body = generate_receipt e order_data verdict;
                    w = w\<lparr>sent := sent w @
                               [(email state, ''Refund: '' @ opt_str (order_id state), receipt_body)]\<rparr>;
                    state = say (''Success! Receipt sent to '' @ opt_str (email state) @ ''.'') state
                in log_transaction w state))
      else log_transaction w state)"

section \<open>The graph\<close>

text \<open>
  \<open>_build_graph\<close> declares five nodes, the entry point, and the edges; the compiled
  \<open>StateGraph\<close> runs a node on the current state and writes the dict the node
  returns back key by key. Every key is overwritten, except
  \<open>conversation_history\<close>: it is annotated with the reducer \<open>operator.add\<close>, so
  the list a node returns under that key is added to the end of the stored one.
  The routers are then read on the state so written.
\<close>

fun node_fn :: "node \<Rightarrow> env \<Rightarrow> world \<Rightarrow> AgentState \<Rightarrow> result" where
  "node_fn IntentReviewer = intent_reviewer_node"
| "node_fn Collector = collector_node"
| "node_fn ImageAnalyzer = image_analyzer_node"
| "node_fn Decision = decision_node"
| "node_fn Finalizer = finalizer_node"

definition write_back :: "AgentState \<Rightarrow> AgentState \<Rightarrow> AgentState" where
  "write_back stored returned =
     returned\<lparr>conversation_history := conversation_history stored @ conversation_history returned\<rparr>"

definition run_node :: "env \<Rightarrow> node \<Rightarrow> world \<Rightarrow> AgentState \<Rightarrow> result" where
  "run_node e n w state =
     (case node_fn n e (w\<lparr>visited := visited w @ [n]\<rparr>) state of
        (Inl err, w') \<Rightarrow> (Inl err, w')
      | (Inr returned, w') \<Rightarrow> (Inr (write_back state returned), w'))"

text \<open>The edges; \<open>None\<close> is \<open>END\<close>.\<close>

fun next_node :: "node \<Rightarrow> AgentState \<Rightarrow> node option" where
  "next_node IntentReviewer state =
     (case route_after_intent state of
        RouteGeneral \<Rightarrow> None
      | RouteContinue \<Rightarrow> Some Collector
      | RouteFinalize \<Rightarrow> Some Finalizer)"
| "next_node Collector state =
     (case route_after_collector state of NeedInput \<Rightarrow> None | Ready \<Rightarrow> Some ImageAnalyzer)"
| "next_node ImageAnalyzer state = Some Decision"
| "next_node Decision state =
     (case route_after_decision state of AskEmail \<Rightarrow> None | Finalize \<Rightarrow> Some Finalizer)"
| "next_node Finalizer state = None"

fun rank :: "node \<Rightarrow> nat" where
  "rank IntentReviewer = 0"
| "rank Collector = 1"
| "rank ImageAnalyzer = 2"
| "rank Decision = 3"
| "rank Finalizer = 4"

text \<open>
  One walk from a node: run it, stop on an exception, otherwise follow the edge.
  Every edge leads to a node of higher rank, so the walk ends.
\<close>

function walk :: "env \<Rightarrow> node \<Rightarrow> world \<Rightarrow> AgentState \<Rightarrow> result" where
  "walk e n w state =
     (case run_node e n w state of
        (Inl err, w') \<Rightarrow> (Inl err, w')
      | (Inr state', w') \<Rightarrow>
          (case next_node n state' of
             None \<Rightarrow> (Inr state', w')
           | Some n' \<Rightarrow> walk e n' w' state'))"
  by pat_completeness auto
termination
proof (relation "measure (\<lambda>(e, n, w, state). 5 - rank n)")
  show "wf (measure (\<lambda>(e, n, w, state). 5 - rank n))"
    by simp
next
  fix e n w state x1 x2 state' n'
  assume "next_node n state' = Some n'"
  then have "rank n < rank n' \<and> rank n' \<le> 4"
    by (cases n) (auto split: intent_route.splits collector_route.splits decision_route.splits)
  then have "5 - rank n' < 5 - rank n"
    by arith
  then show "((e, n', x2, state'), (e, n, w, state)) \<in> measure (\<lambda>(e, n, w, state). 5 - rank n)"
    by simp
qed

text \<open>
  \<open>graph.invoke(state)\<close>: the input is written into empty channels (for the
  history, \<open>[] + history\<close>) and the walk starts at the entry point.
\<close>

definition invoke :: "env \<Rightarrow> world \<Rightarrow> AgentState \<Rightarrow> result" where
  "invoke e w state =
     walk e IntentReviewer w (state\<lparr>conversation_history := [] @ conversation_history state\<rparr>)"

section \<open>The turn boundary (\<open>chat\<close>)\<close>

definition initialize_session :: "string \<Rightarrow> AgentState" where
  "initialize_session sid =
     \<lparr>session_id = sid, user_message = [], sentiment_score = 5, intent = [],
      language = ''en'', order_id = None, complaint = None, image_path = None,
      image_verdict = None, refund_status = [], email = None, current_node = [],
      response_message = [], needs_input = True, conversation_history = []\<rparr>"

text \<open>
  One request: the session id and the optional form fields. For the image, the
  field is the path the upload was saved under (it holds a random part).
\<close>

record request =
  req_session_id :: string
  req_message :: "string option"
  req_image :: "string option"
  req_email :: "string option"

text \<open>The merge of a request into the stored state, before the graph runs.\<close>

definition merge_request :: "request \<Rightarrow> AgentState \<Rightarrow> AgentState" where
  "merge_request r state0 =
     (let state = (case req_message r of
                     None \<Rightarrow> state0
                   | Some message \<Rightarrow>
                       if message = [] then state0
                       else
                         (let state = state0\<lparr>user_message := strip message\<rparr>
                          in case re_search order_rx message of
                               None \<Rightarrow> state
                             | Some m \<Rightarrow>
                                 if \<not> truthy (order_id state) then state\<lparr>order_id := Some (upper m)\<rparr>
                                 else if order_id state \<noteq> Some (upper m)
                                   then state\<lparr>order_id := Some (upper m)\<rparr>
                                 else state));
          state = (case req_email r of
                     None \<Rightarrow> state
                   | Some em \<Rightarrow> if em = [] then state else state\<lparr>email := Some (strip em)\<rparr>);
          state = (case req_image r of
                     None \<Rightarrow> state
                   | Some path \<Rightarrow> state\<lparr>image_path := Some path\<rparr>)
      in state)"

type_synonym sessions = "string \<rightharpoonup> AgentState"

text \<open>The session storage when the server starts (\<open>sessions = {}\<close>).\<close>

definition no_sessions :: sessions where
  "no_sessions = Map.empty"

text \<open>
  \<open>chat\<close>: a new session is stored first; the result of the graph replaces the stored
  state; an exception leaves the stored state as it is and answers with an error.
\<close>

definition chat :: "env \<Rightarrow> request \<Rightarrow> sessions \<times> world \<Rightarrow> (error + AgentState) \<times> sessions \<times> world" where
  "chat e r sw =
     (let sid = req_session_id r;
          sessions = (case fst sw sid of
                        None \<Rightarrow> (fst sw)(sid \<mapsto> initialize_session sid)
                      | Some _ \<Rightarrow> fst sw);
          state = merge_request r (case sessions sid of
                                     None \<Rightarrow> initialize_session sid
                                   | Some stored \<Rightarrow> stored)
      in case invoke e (snd sw) state of
           (Inl err, w') \<Rightarrow> (Inl err, sessions, w')
         | (Inr result, w') \<Rightarrow> (Inr result, sessions(sid \<mapsto> result), w'))"

text \<open>A sequence of turns, each with the collaborators as they answer in that turn.\<close>

fun run_chats :: "(env \<times> request) list \<Rightarrow> sessions \<times> world \<Rightarrow> sessions \<times> world" where
  "run_chats [] sw = sw"
| "run_chats ((e, r) # ts) sw = run_chats ts (snd (chat e r sw))"

definition history_of :: "sessions \<Rightarrow> string \<Rightarrow> hist_entry list" where
  "history_of sessions sid =
     (case sessions sid of None \<Rightarrow> [] | Some state \<Rightarrow> conversation_history state)"

definition no_world :: world where
  "no_world = \<lparr>refunds_json = Unreadable, sent = [], vision_calls = [], analyzer_calls = [], visited = []\<rparr>"

text \<open>The entries of the ledger file as the Finalizer reads them.\<close>

definition ledger :: "world \<Rightarrow> ledger_entry list" where
  "ledger w = (case refunds_json w of Unreadable \<Rightarrow> [] | JsonList r \<Rightarrow> r | JsonOther \<Rightarrow> [])"

section \<open>Session states\<close>

text \<open>The status the Decision stage sets for a verdict.\<close>

definition decided :: "verdict \<Rightarrow> string" where
  "decided v = (if map_of v ''status'' = Some (JStr ''defective'') then ''approved'' else ''denied'')"

text \<open>A state whose status is the one decided for the verdict it holds.\<close>

definition status_from_verdict :: "AgentState \<Rightarrow> bool" where
  "status_from_verdict state =
     (case image_verdict state of None \<Rightarrow> False | Some v \<Rightarrow> refund_status state = decided v)"

definition sessions_ok :: "sessions \<Rightarrow> bool" where
  "sessions_ok sessions =
     (\<forall>sid state. sessions sid = Some state \<longrightarrow>
        refund_status state = [] \<or> status_from_verdict state)"

section \<open>Sample inputs\<close>

text \<open>
  A catalog with one order, a classifier that answers with the given intent and a
  vision verifier that answers with the given verdict.
\<close>

definition shop_with :: "string \<Rightarrow> verdict \<Rightarrow> env" where
  "shop_with i v =
     \<lparr>orders_db = [''XRD12345'' \<mapsto>
                    \<lparr>items = [\<lparr>name = ''Pizza'', quantity = 2, price = 300\<rparr>], total_amount = 600\<rparr>],
      analyze = (\<lambda>m. \<lparr>an_intent = i, an_sentiment_score = 3, an_language = ''en''\<rparr>),
      analyze_product_image = (\<lambda>p c. v),
      generate_receipt = (\<lambda>od vd. ''receipt'')\<rparr>"

definition approving :: env where
  "approving = shop_with ''refund''
     [(''status'', JStr ''defective''), (''description'', JStr ''crushed box'')]"

text \<open>A claim with order, complaint and image bound, and the given verdict, status and email.\<close>

definition claim_state :: "verdict option \<Rightarrow> string \<Rightarrow> string option \<Rightarrow> AgentState" where
  "claim_state v st em =
     \<lparr>session_id = ''s1'', user_message = ''ok thanks'', sentiment_score = 3, intent = ''refund'',
      language = ''en'', order_id = Some ''XRD12345'', complaint = Some ''the box was crushed'',
      image_path = Some ''uploads/s1_box.jpg'', image_verdict = v, refund_status = st, email = em,
      current_node = ''collector'', response_message = ''Analyzing...'', needs_input = False,
      conversation_history = []\<rparr>"

text \<open>Requests of session \<open>s1\<close>.\<close>

definition form :: "string option \<Rightarrow> string option \<Rightarrow> string option \<Rightarrow> request" where
  "form m i em = \<lparr>req_session_id = ''s1'', req_message = m, req_image = i, req_email = em\<rparr>"

definition claim_form :: request where
  "claim_form = form (Some ''XRD12345 the box was crushed'') (Some ''uploads/s1_box.jpg'') None"

section \<open>Properties of the stages\<close>

text \<open>
  C1. The Decision stage sets \<open>refund_status\<close> to \<open>approved\<close> if and only if the
  \<open>status\<close> field of the image verdict is the string \<open>defective\<close>; with any other
  value of the field, or none, it sets \<open>denied\<close>.
\<close>

theorem decision_approves_iff_defective:
  assumes "image_verdict state = Some verdict"
  shows "\<exists>state'. decision_node e w state = (Inr state', w) \<and>
           (refund_status state' = ''approved'' \<longleftrightarrow>
              map_of verdict ''status'' = Some (JStr ''defective'')) \<and>
           (refund_status state' = ''denied'' \<longleftrightarrow>
              map_of verdict ''status'' \<noteq> Some (JStr ''defective''))"
  using assms by (simp add: decision_node_def Let_def say_def)

theorem decision_approves_iff_defective_witness:
  "image_verdict (claim_state (Some [(''status'', JStr ''Defective'')]) [] None)
     = Some [(''status'', JStr ''Defective'')] \<and>
   (\<exists>state'. decision_node (shop_with ''refund'' []) no_world
                 (claim_state (Some [(''status'', JStr ''Defective'')]) [] None)
               = (Inr state', no_world) \<and>
              refund_status state' = ''denied'')"
  using decision_approves_iff_defective
    [of "claim_state (Some [(''status'', JStr ''Defective'')]) [] None"
        "[(''status'', JStr ''Defective'')]" "shop_with ''refund'' []" no_world]
  by (auto simp: claim_state_def)

text \<open>
  With a non-empty verdict stored, the Image Analysis stage returns the state as it
  is, and the world as it is: the vision verifier is not called.
\<close>

lemma image_analyzer_memoized:
  assumes "truthy_dict (image_verdict state)"
  shows "image_analyzer_node e w state = (Inr state, w)"
  using assms by (simp add: image_analyzer_node_def)

text \<open>
  The Finalizer, on an approved claim whose email does not match the mailbox
  pattern, asks for the email again, sets \<open>needs_input\<close> and leaves the ledger file
  as it is. Otherwise, when the ledger file is unreadable or holds a list (and, for
  an approved claim, the verdict the receipt is rendered from is present), it
  rewrites the file as the entries read from it followed by exactly one new entry
  \<open>{session_id, order_id, status, email}\<close>.
\<close>

lemma finalizer_ledger:
  "(refund_status state = ''approved'' \<and> \<not> is_valid_email (email state) \<longrightarrow>
      (\<exists>state'. finalizer_node e w state = (Inr state', w) \<and>
         response_message state' = ''I still need a valid email address.'' \<and>
         needs_input state')) \<and>
   (\<not> (refund_status state = ''approved'' \<and> \<not> is_valid_email (email state)) \<and>
    (refund_status state = ''approved'' \<longrightarrow> image_verdict state \<noteq> None) \<and>
    refunds_json w \<noteq> JsonOther \<longrightarrow>
      (\<exists>state' w'. finalizer_node e w state = (Inr state', w') \<and>
         refunds_json w' = JsonList (ledger w @
           [\<lparr>entry_session_id = session_id state, entry_order_id = order_id state,
             entry_status = refund_status state, entry_email = email state\<rparr>])))"
  by (auto simp: finalizer_node_def log_transaction_def say_def ledger_def Let_def
           split: option.splits refunds_file.splits)

text \<open>
  When the ledger file holds a JSON value that is not a list, a Finalizer that
  reaches the log raises and leaves the file as it is.
\<close>

lemma finalizer_non_list:
  assumes "refunds_json w = JsonOther"
      and "\<not> (refund_status state = ''approved'' \<and> \<not> is_valid_email (email state))"
  shows "\<exists>w'. finalizer_node e w state = (Inl AttributeError, w') \<and> refunds_json w' = JsonOther"
  using assms
  by (auto simp: finalizer_node_def log_transaction_def say_def Let_def
           split: option.splits refunds_file.splits)

subsection \<open>The Collector\<close>

lemma bind_order_id_fields:
  "complaint (bind_order_id state) = complaint state"
  "image_path (bind_order_id state) = image_path state"
  "image_verdict (bind_order_id state) = image_verdict state"
  "refund_status (bind_order_id state) = refund_status state"
  "email (bind_order_id state) = email state"
  "intent (bind_order_id state) = intent state"
  "user_message (bind_order_id state) = user_message state"
  "conversation_history (bind_order_id state) = conversation_history state"
  by (simp_all add: bind_order_id_def split: option.splits)

lemma bind_order_id_current_node:
  "bind_order_id (state\<lparr>current_node := c\<rparr>) = (bind_order_id state)\<lparr>current_node := c\<rparr>"
  by (simp add: bind_order_id_def split: option.splits)

text \<open>
  C4. When the identifier the Collector holds after reading the message is not in
  the catalog, the walk from the Collector ends there, with the Collector as the
  only stage executed: the response is the not-found message with that identifier
  (\<open>Order '...' not found in database.\<close>), \<open>order_id\<close> is
  cleared, \<open>needs_input\<close> is set, and \<open>complaint\<close>, \<open>image_path\<close>,
  \<open>image_verdict\<close> and \<open>refund_status\<close> are as before.
\<close>

theorem collector_unknown_order:
  assumes "order_id (bind_order_id state) = Some oid" and "oid \<noteq> []"
      and "orders_db e oid = None"
  shows "\<exists>state'. walk e Collector w state = (Inr state', w\<lparr>visited := visited w @ [Collector]\<rparr>) \<and>
           response_message state' =
             ''Order '' @ [CHR 0x27] @ oid @ [CHR 0x27] @ '' not found in database.'' \<and>
           order_id state' = None \<and> needs_input state' \<and>
           complaint state' = complaint state \<and> image_path state' = image_path state \<and>
           image_verdict state' = image_verdict state \<and>
           refund_status state' = refund_status state"
proof -
  have node: "collector_node e (w\<lparr>visited := visited w @ [Collector]\<rparr>) state =
      (Inr ((say (not_found_message oid) ((bind_order_id state)\<lparr>current_node := ''collector''\<rparr>))
              \<lparr>order_id := None, needs_input := True\<rparr>),
       w\<lparr>visited := visited w @ [Collector]\<rparr>)"
    using assms by (simp add: collector_node_def Let_def bind_order_id_current_node)
  show ?thesis
    by (subst walk.simps)
       (simp add: run_node_def node write_back_def say_def route_after_collector_def
                  bind_order_id_fields not_found_message_def)
qed

theorem collector_unknown_order_witness:
  "order_id (bind_order_id ((initialize_session ''s1'')\<lparr>user_message := ''xrd99999 came broken''\<rparr>))
     = Some ''XRD99999'' \<and>
   orders_db (shop_with ''refund'' []) ''XRD99999'' = None \<and>
   (\<exists>state'. walk (shop_with ''refund'' []) Collector no_world
                 ((initialize_session ''s1'')\<lparr>user_message := ''xrd99999 came broken''\<rparr>)
               = (Inr state', no_world\<lparr>visited := [Collector]\<rparr>) \<and>
              response_message state' =
                ''Order '' @ [CHR 0x27] @ ''XRD99999'' @ [CHR 0x27] @ '' not found in database.'' \<and>
              order_id state' = None \<and> needs_input state' \<and> complaint state' = None)"
proof -
  have bound: "order_id (bind_order_id ((initialize_session ''s1'')\<lparr>user_message := ''xrd99999 came broken''\<rparr>))
      = Some ''XRD99999''"
    by code_simp
  have absent: "orders_db (shop_with ''refund'' []) ''XRD99999'' = None"
    by (simp add: shop_with_def)
  show ?thesis
    using bound absent
      collector_unknown_order
        [of "(initialize_session ''s1'')\<lparr>user_message := ''xrd99999 came broken''\<rparr>"
            "''XRD99999''" "shop_with ''refund'' []" no_world, OF bound _ absent]
    by (auto simp: initialize_session_def no_world_def)
qed

subsection \<open>Intent Review\<close>

text \<open>
  C10. When Intent Review calls the classifier and the answer's intent is
  \<open>general\<close>, the walk ends after Intent Review, the only stage executed, with the
  help prompt as the response and \<open>needs_input\<close> false.
\<close>

theorem general_intent_halts:
  assumes "analyzer_calls (snd (intent_reviewer_node e w state)) = analyzer_calls w @ [m]"
      and "an_intent (analyze e m) = ''general''"
  shows "\<exists>state'. invoke e w state =
           (Inr state', w\<lparr>visited := visited w @ [IntentReviewer],
                           analyzer_calls := analyzer_calls w @ [m]\<rparr>) \<and>
           response_message state' =
             ''I can help with refunds or complaints. Do you have an Order ID?'' \<and>
           \<not> needs_input state'"
proof -
  have "m = strip (user_message state) \<and>
        \<not> (refund_status state = ''approved'' \<and>
           re_search email_rx (strip (user_message state)) \<noteq> None) \<and>
        \<not> (refund_status state = ''approved'' \<and> \<not> truthy (email state)) \<and>
        \<not> (intent state \<in> {''refund'', ''quality_complaint''} \<and> refund_status state = [])"
    using assms(1) by (auto simp: intent_reviewer_node_def Let_def split: if_splits)
  then show ?thesis
    using assms(2)
    by (subst invoke_def, subst walk.simps)
       (auto simp: run_node_def intent_reviewer_node_def Let_def write_back_def say_def
                   route_after_intent_def)
qed

theorem general_intent_halts_witness:
  "analyzer_calls (snd (intent_reviewer_node (shop_with ''general'' []) no_world
       ((initialize_session ''s1'')\<lparr>user_message := ''hello''\<rparr>)))
     = analyzer_calls no_world @ [''hello''] \<and>
   an_intent (analyze (shop_with ''general'' []) ''hello'') = ''general'' \<and>
   (\<exists>state'. invoke (shop_with ''general'' []) no_world
                 ((initialize_session ''s1'')\<lparr>user_message := ''hello''\<rparr>)
               = (Inr state', no_world\<lparr>visited := [IntentReviewer], analyzer_calls := [''hello'']\<rparr>) \<and>
              \<not> needs_input state')"
proof -
  have called: "analyzer_calls (snd (intent_reviewer_node (shop_with ''general'' []) no_world
       ((initialize_session ''s1'')\<lparr>user_message := ''hello''\<rparr>)))
     = analyzer_calls no_world @ [''hello'']"
    by code_simp
  have general: "an_intent (analyze (shop_with ''general'' []) ''hello'') = ''general''"
    by (simp add: shop_with_def)
  show ?thesis
    using called general
      general_intent_halts
        [of "shop_with ''general'' []" no_world
            "(initialize_session ''s1'')\<lparr>user_message := ''hello''\<rparr>" "''hello''",
         OF called general]
    by (auto simp: no_world_def)
qed

section \<open>Properties of the conversation history\<close>

lemma run_node_history:
  "run_node e n w state = (Inr state', w') \<Longrightarrow>
     \<exists>new. conversation_history state' = conversation_history state @ new"
  by (auto simp: run_node_def write_back_def split: prod.splits sum.splits)

lemma walk_history:
  "walk e n w state = (Inr final, w') \<Longrightarrow>
     prefix (conversation_history state) (conversation_history final)"
proof (induction e n w state rule: walk.induct)
  case (1 e n w state)
  obtain r w1 where run: "run_node e n w state = (r, w1)"
    by (cases "run_node e n w state") auto
  show ?case
  proof (cases r)
    case (Inl err)
    with run "1.prems" show ?thesis
      by (subst (asm) walk.simps) simp
  next
    case (Inr state1)
    from run Inr have step: "prefix (conversation_history state) (conversation_history state1)"
      using run_node_history [of e n w state state1 w1] by auto
    show ?thesis
    proof (cases "next_node n state1")
      case None
      with run Inr "1.prems" have "final = state1"
        by (subst (asm) walk.simps) simp
      with step show ?thesis by simp
    next
      case (Some n')
      with run Inr "1.prems" have "walk e n' w1 state1 = (Inr final, w')"
        by (subst (asm) walk.simps) simp
      then have "prefix (conversation_history state1) (conversation_history final)"
        by (rule "1.IH" [OF run [symmetric] Inr Some])
      with step show ?thesis
        by (rule prefix_order.trans)
    qed
  qed
qed

lemma merge_request_history:
  "conversation_history (merge_request r state) = conversation_history state"
  by (simp add: merge_request_def Let_def split: option.splits)

text \<open>One turn adds to the end of the history of its session and leaves the others.\<close>

lemma chat_history:
  "prefix (history_of (fst sw) sid) (history_of (fst (snd (chat e r sw))) sid)"
proof -
  define sessions where "sessions =
    (case fst sw (req_session_id r) of
       None \<Rightarrow> (fst sw)(req_session_id r \<mapsto> initialize_session (req_session_id r))
     | Some _ \<Rightarrow> fst sw)"
  define state where "state =
    merge_request r (case sessions (req_session_id r) of
                       None \<Rightarrow> initialize_session (req_session_id r)
                     | Some stored \<Rightarrow> stored)"
  obtain res w' where inv: "invoke e (snd sw) state = (res, w')"
    by (cases "invoke e (snd sw) state") auto
  have before: "prefix (history_of (fst sw) sid) (history_of sessions sid)"
    by (auto simp: sessions_def history_of_def split: option.splits)
  have stored: "history_of sessions (req_session_id r) = conversation_history state"
    by (auto simp: sessions_def state_def history_of_def merge_request_history
                   initialize_session_def split: option.splits)
  show ?thesis
  proof (cases res)
    case (Inl err)
    with inv have "fst (snd (chat e r sw)) = sessions"
      by (simp add: chat_def Let_def sessions_def state_def)
    with before show ?thesis by simp
  next
    case (Inr final)
    with inv have after: "fst (snd (chat e r sw)) = sessions(req_session_id r \<mapsto> final)"
      by (simp add: chat_def Let_def sessions_def state_def)
    from inv Inr have "prefix (conversation_history state) (conversation_history final)"
      using walk_history by (auto simp: invoke_def)
    with stored have "prefix (history_of sessions sid)
        (history_of (sessions(req_session_id r \<mapsto> final)) sid)"
      by (auto simp: history_of_def)
    with before after show ?thesis
      by (auto intro: prefix_order.trans)
  qed
qed

lemma run_chats_snoc: "run_chats (ts @ [(e, r)]) sw = snd (chat e r (run_chats ts sw))"
  by (induction ts sw rule: run_chats.induct) simp_all

text \<open>
  C7. Over any sequence of turns, the history of a session after one more turn
  starts with the history before it: entries are only added at the end, so the
  length never decreases.
\<close>

theorem history_append_only:
  "prefix (history_of (fst (run_chats ts sw)) sid)
          (history_of (fst (run_chats (ts @ [t]) sw)) sid) \<and>
   length (history_of (fst (run_chats ts sw)) sid)
     \<le> length (history_of (fst (run_chats (ts @ [t]) sw)) sid)"
proof -
  obtain e r where t: "t = (e, r)" by (cases t)
  have "prefix (history_of (fst (run_chats ts sw)) sid)
               (history_of (fst (run_chats (ts @ [t]) sw)) sid)"
    unfolding t run_chats_snoc by (rule chat_history)
  then show ?thesis
    by (simp add: prefix_length_le)
qed

theorem history_append_only_witness:
  "history_of (fst (run_chats [(shop_with ''general'' [], form (Some ''hello'') None None)]
                     (no_sessions, no_world))) ''s1''
     = [\<lparr>role = ''assistant'',
         content = ''I can help with refunds or complaints. Do you have an Order ID?''\<rparr>] \<and>
   prefix (history_of (fst (run_chats [(shop_with ''general'' [], form (Some ''hello'') None None)]
                     (no_sessions, no_world))) ''s1'')
          (history_of (fst (run_chats ([(shop_with ''general'' [], form (Some ''hello'') None None)] @
                                       [(shop_with ''refund'' [], form (Some ''I want a refund'') None None)])
                     (no_sessions, no_world))) ''s1'')"
proof -
  have first: "history_of (fst (run_chats [(shop_with ''general'' [], form (Some ''hello'') None None)]
                     (no_sessions, no_world))) ''s1''
     = [\<lparr>role = ''assistant'',
         content = ''I can help with refunds or complaints. Do you have an Order ID?''\<rparr>]"
    by code_simp
  show ?thesis
    using first
      history_append_only
        [of "[(shop_with ''general'' [], form (Some ''hello'') None None)]" "(no_sessions, no_world)"
            "''s1''" "(shop_with ''refund'' [], form (Some ''I want a refund'') None None)"]
    by simp
qed

section \<open>Properties of the refund status\<close>

subsection \<open>What each stage leaves as it is\<close>

lemma intent_reviewer_frame:
  "intent_reviewer_node e w state = (res, w') \<Longrightarrow>
     \<exists>r. res = Inr r \<and> refund_status r = refund_status state \<and>
         image_verdict r = image_verdict state"
  by (auto simp: intent_reviewer_node_def Let_def say_def split: if_splits)

lemma collector_frame:
  "collector_node e w state = (res, w') \<Longrightarrow>
     \<exists>r. res = Inr r \<and> refund_status r = refund_status state \<and>
         image_verdict r = image_verdict state"
  by (auto simp: collector_node_def collector_image_def Let_def say_def bind_order_id_fields
                 bind_order_id_current_node split: if_splits option.splits)

lemma finalizer_frame:
  "finalizer_node e w state = (Inr r, w') \<Longrightarrow>
     refund_status r = refund_status state \<and> image_verdict r = image_verdict state"
  by (auto simp: finalizer_node_def log_transaction_def Let_def say_def
           split: if_splits option.splits refunds_file.splits)

lemma decision_frame:
  "decision_node e w state = (Inr r, w') \<Longrightarrow>
     image_verdict r = image_verdict state \<and> status_from_verdict r"
  by (auto simp: decision_node_def Let_def say_def status_from_verdict_def decided_def
           split: if_splits option.splits)

lemma image_analyzer_frame:
  "image_analyzer_node e w state = (Inr r, w') \<Longrightarrow>
     refund_status r = refund_status state \<and> image_verdict r \<noteq> None \<and>
     (truthy_dict (image_verdict state) \<longrightarrow> image_verdict r = image_verdict state)"
  by (auto simp: image_analyzer_node_def Let_def truthy_dict_def split: if_splits option.splits)

lemma write_back_fields:
  "refund_status (write_back s r) = refund_status r"
  "image_verdict (write_back s r) = image_verdict r"
  "status_from_verdict (write_back s r) = status_from_verdict r"
  by (simp_all add: write_back_def status_from_verdict_def split: option.splits)

subsection \<open>The walk, from the last stage back to the first\<close>

lemma walk_Finalizer:
  assumes "walk e Finalizer w state = (Inr final, w')"
  shows "refund_status final = refund_status state \<and> image_verdict final = image_verdict state"
  using assms
  by (subst (asm) walk.simps)
     (auto simp: run_node_def write_back_fields dest!: finalizer_frame
           split: prod.splits sum.splits)

lemma walk_Decision:
  assumes "walk e Decision w state = (Inr final, w')"
  shows "image_verdict final = image_verdict state \<and> status_from_verdict final"
proof -
  obtain res w1 where
      node: "decision_node e (w\<lparr>visited := visited w @ [Decision]\<rparr>) state = (res, w1)"
    by (cases "decision_node e (w\<lparr>visited := visited w @ [Decision]\<rparr>) state") auto
  show ?thesis
  proof (cases res)
    case (Inl err)
    with node assms show ?thesis
      by (subst (asm) walk.simps) (simp add: run_node_def)
  next
    case (Inr r)
    with node have r: "image_verdict r = image_verdict state" "status_from_verdict r"
      using decision_frame by blast+
    show ?thesis
    proof (cases "route_after_decision (write_back state r)")
      case AskEmail
      with node Inr assms have "final = write_back state r"
        by (subst (asm) walk.simps) (simp add: run_node_def)
      with r show ?thesis by (simp add: write_back_fields)
    next
      case Finalize
      with node Inr assms have "walk e Finalizer w1 (write_back state r) = (Inr final, w')"
        by (subst (asm) walk.simps) (simp add: run_node_def)
      then have "refund_status final = refund_status (write_back state r) \<and>
                 image_verdict final = image_verdict (write_back state r)"
        by (rule walk_Finalizer)
      with r show ?thesis
        by (simp add: write_back_fields status_from_verdict_def split: option.splits)
    qed
  qed
qed

lemma walk_ImageAnalyzer:
  assumes "walk e ImageAnalyzer w state = (Inr final, w')"
  shows "status_from_verdict final \<and>
         (truthy_dict (image_verdict state) \<longrightarrow> image_verdict final = image_verdict state)"
proof -
  obtain res w1 where node:
      "image_analyzer_node e (w\<lparr>visited := visited w @ [ImageAnalyzer]\<rparr>) state = (res, w1)"
    by (cases "image_analyzer_node e (w\<lparr>visited := visited w @ [ImageAnalyzer]\<rparr>) state") auto
  show ?thesis
  proof (cases res)
    case (Inl err)
    with node assms show ?thesis
      by (subst (asm) walk.simps) (simp add: run_node_def)
  next
    case (Inr r)
    with node have r: "truthy_dict (image_verdict state) \<longrightarrow> image_verdict r = image_verdict state"
      using image_analyzer_frame by blast
    from node Inr assms have "walk e Decision w1 (write_back state r) = (Inr final, w')"
      by (subst (asm) walk.simps) (simp add: run_node_def)
    then have "image_verdict final = image_verdict (write_back state r) \<and>
               status_from_verdict final"
      by (rule walk_Decision)
    with r show ?thesis
      by (simp add: write_back_fields)
  qed
qed

lemma walk_Collector:
  assumes "walk e Collector w state = (Inr final, w')"
  shows "(refund_status final = refund_status state \<and> image_verdict final = image_verdict state) \<or>
         (status_from_verdict final \<and>
          (truthy_dict (image_verdict state) \<longrightarrow> image_verdict final = image_verdict state))"
proof -
  obtain res w1 where
      node: "collector_node e (w\<lparr>visited := visited w @ [Collector]\<rparr>) state = (res, w1)"
    by (cases "collector_node e (w\<lparr>visited := visited w @ [Collector]\<rparr>) state") auto
  then obtain r where r: "res = Inr r" "refund_status r = refund_status state"
      "image_verdict r = image_verdict state"
    using collector_frame by blast
  show ?thesis
  proof (cases "route_after_collector (write_back state r)")
    case NeedInput
    with node r assms have "final = write_back state r"
      by (subst (asm) walk.simps) (simp add: run_node_def)
    with r show ?thesis by (simp add: write_back_fields)
  next
    case Ready
    with node r assms have "walk e ImageAnalyzer w1 (write_back state r) = (Inr final, w')"
      by (subst (asm) walk.simps) (simp add: run_node_def)
    then have "status_from_verdict final \<and>
         (truthy_dict (image_verdict (write_back state r)) \<longrightarrow>
            image_verdict final = image_verdict (write_back state r))"
      by (rule walk_ImageAnalyzer)
    with r show ?thesis by (simp add: write_back_fields)
  qed
qed

lemma walk_IntentReviewer:
  assumes "walk e IntentReviewer w state = (Inr final, w')"
  shows "(refund_status final = refund_status state \<and> image_verdict final = image_verdict state) \<or>
         (status_from_verdict final \<and>
          (truthy_dict (image_verdict state) \<longrightarrow> image_verdict final = image_verdict state))"
proof -
  obtain res w1 where node:
      "intent_reviewer_node e (w\<lparr>visited := visited w @ [IntentReviewer]\<rparr>) state = (res, w1)"
    by (cases "intent_reviewer_node e (w\<lparr>visited := visited w @ [IntentReviewer]\<rparr>) state") auto
  then obtain r where r: "res = Inr r" "refund_status r = refund_status state"
      "image_verdict r = image_verdict state"
    using intent_reviewer_frame by blast
  show ?thesis
  proof (cases "route_after_intent (write_back state r)")
    case RouteGeneral
    with node r assms have "final = write_back state r"
      by (subst (asm) walk.simps) (simp add: run_node_def)
    with r show ?thesis by (simp add: write_back_fields)
  next
    case RouteContinue
    with node r assms have "walk e Collector w1 (write_back state r) = (Inr final, w')"
      by (subst (asm) walk.simps) (simp add: run_node_def)
    then have "(refund_status final = refund_status (write_back state r) \<and>
                image_verdict final = image_verdict (write_back state r)) \<or>
         (status_from_verdict final \<and>
          (truthy_dict (image_verdict (write_back state r)) \<longrightarrow>
             image_verdict final = image_verdict (write_back state r)))"
      by (rule walk_Collector)
    with r show ?thesis by (simp add: write_back_fields)
  next
    case RouteFinalize
    with node r assms have "walk e Finalizer w1 (write_back state r) = (Inr final, w')"
      by (subst (asm) walk.simps) (simp add: run_node_def)
    then have "refund_status final = refund_status (write_back state r) \<and>
               image_verdict final = image_verdict (write_back state r)"
      by (rule walk_Finalizer)
    with r show ?thesis by (simp add: write_back_fields)
  qed
qed

subsection \<open>Every stored state has the status of its verdict\<close>

lemma merge_request_fields:
  "refund_status (merge_request r state) = refund_status state"
  "image_verdict (merge_request r state) = image_verdict state"
  by (simp_all add: merge_request_def Let_def split: option.splits)

lemma invoke_result:
  obtains res w' where "invoke e w state = (res, w')"
  by (cases "invoke e w state") auto

lemma chat_session:
  assumes "sessions sid = Some state"
  shows "\<exists>state'. fst (snd (chat e r (sessions, w))) sid = Some state' \<and>
           (state' = state \<or>
            (\<exists>w'. walk e IntentReviewer w (merge_request r state) = (Inr state', w')))"
proof -
  obtain res w' where inv: "invoke e w (merge_request r (case sessions (req_session_id r) of
       None \<Rightarrow> initialize_session (req_session_id r) | Some stored \<Rightarrow> stored)) = (res, w')"
    by (rule invoke_result)
  show ?thesis
  proof (cases "sid = req_session_id r")
    case True
    with assms inv show ?thesis
      by (cases res) (auto simp: chat_def Let_def invoke_def)
  next
    case False
    with assms inv show ?thesis
      by (cases res; cases "sessions (req_session_id r)") (auto simp: chat_def Let_def)
  qed
qed

lemma chat_new_session:
  assumes "sessions sid = None" and "fst (snd (chat e r (sessions, w))) sid = Some state'"
  shows "state' = initialize_session sid \<or>
         (\<exists>w'. walk e IntentReviewer w (merge_request r (initialize_session sid)) = (Inr state', w'))"
proof -
  obtain res w' where inv: "invoke e w (merge_request r (case sessions (req_session_id r) of
       None \<Rightarrow> initialize_session (req_session_id r) | Some stored \<Rightarrow> stored)) = (res, w')"
    by (rule invoke_result)
  show ?thesis
  proof (cases "sid = req_session_id r")
    case True
    with assms inv show ?thesis
      by (cases res) (auto simp: chat_def Let_def invoke_def)
  next
    case False
    with assms inv show ?thesis
      by (cases res; cases "sessions (req_session_id r)") (auto simp: chat_def Let_def)
  qed
qed

lemma walk_keeps_ok:
  assumes "refund_status state = [] \<or> status_from_verdict state"
      and "walk e IntentReviewer w state = (Inr final, w')"
  shows "refund_status final = [] \<or> status_from_verdict final"
  using walk_IntentReviewer [OF assms(2)] assms(1)
  by (auto simp: status_from_verdict_def split: option.splits)

lemma chat_keeps_ok:
  assumes "sessions_ok sessions"
  shows "sessions_ok (fst (snd (chat e r (sessions, w))))"
  unfolding sessions_ok_def
proof (intro allI impI)
  fix sid state'
  assume after: "fst (snd (chat e r (sessions, w))) sid = Some state'"
  show "refund_status state' = [] \<or> status_from_verdict state'"
  proof (cases "sessions sid")
    case None
    from chat_new_session [OF None after] show ?thesis
    proof
      assume "state' = initialize_session sid"
      then show ?thesis by (simp add: initialize_session_def)
    next
      assume "\<exists>w'. walk e IntentReviewer w (merge_request r (initialize_session sid))
                    = (Inr state', w')"
      then obtain w' where
          "walk e IntentReviewer w (merge_request r (initialize_session sid)) = (Inr state', w')"
        by blast
      moreover have "refund_status (merge_request r (initialize_session sid)) = []"
        by (simp add: merge_request_fields initialize_session_def)
      ultimately show ?thesis
        using walk_keeps_ok by blast
    qed
  next
    case (Some state)
    with assms have ok: "refund_status state = [] \<or> status_from_verdict state"
      by (simp add: sessions_ok_def)
    from chat_session [of sessions sid state e r w] Some after
    have "state' = state \<or>
          (\<exists>w'. walk e IntentReviewer w (merge_request r state) = (Inr state', w'))"
      by auto
    then show ?thesis
    proof
      assume "state' = state"
      with ok show ?thesis by simp
    next
      assume "\<exists>w'. walk e IntentReviewer w (merge_request r state) = (Inr state', w')"
      then obtain w' where "walk e IntentReviewer w (merge_request r state) = (Inr state', w')"
        by blast
      moreover from ok have "refund_status (merge_request r state) = [] \<or>
          status_from_verdict (merge_request r state)"
        by (auto simp: merge_request_fields status_from_verdict_def split: option.splits)
      ultimately show ?thesis
        using walk_keeps_ok by blast
    qed
  qed
qed

lemma run_chats_ok: "sessions_ok (fst sw) \<Longrightarrow> sessions_ok (fst (run_chats ts sw))"
proof (induction ts sw rule: run_chats.induct)
  case (1 sw)
  then show ?case by simp
next
  case (2 e r ts sw)
  from "2.prems" have "sessions_ok (fst (snd (chat e r sw)))"
    using chat_keeps_ok [of "fst sw" e r "snd sw"] by simp
  then show ?case
    using "2.IH" by simp
qed

lemma run_chats_append: "run_chats (ts @ us) sw = run_chats us (run_chats ts sw)"
  by (induction ts sw rule: run_chats.induct) simp_all

subsection \<open>The status once set\<close>

lemma chat_keeps_decided_status:
  assumes "sessions_ok sessions" and "sessions sid = Some state"
      and "refund_status state = ''approved'' \<or> refund_status state = ''denied''"
      and "truthy_dict (image_verdict state)"
  shows "\<exists>state'. fst (snd (chat e r (sessions, w))) sid = Some state' \<and>
           refund_status state' = refund_status state \<and>
           image_verdict state' = image_verdict state"
proof -
  from assms(1,2) have "refund_status state = [] \<or> status_from_verdict state"
    unfolding sessions_ok_def by blast
  with assms(3) have ok: "status_from_verdict state"
    by auto
  from chat_session [of sessions sid state e r w] assms(2) obtain state' where
      after: "fst (snd (chat e r (sessions, w))) sid = Some state'" and
      how: "state' = state \<or>
            (\<exists>w'. walk e IntentReviewer w (merge_request r state) = (Inr state', w'))"
    by blast
  from how have "refund_status state' = refund_status state \<and>
                 image_verdict state' = image_verdict state"
  proof
    assume "state' = state"
    then show ?thesis by simp
  next
    assume "\<exists>w'. walk e IntentReviewer w (merge_request r state) = (Inr state', w')"
    then obtain w' where "walk e IntentReviewer w (merge_request r state) = (Inr state', w')"
      by blast
    from walk_IntentReviewer [OF this] assms(4) ok show ?thesis
      by (auto simp: merge_request_fields status_from_verdict_def split: option.splits)
  qed
  with after show ?thesis by blast
qed

lemma run_chats_keeps_decided_status:
  assumes "sessions_ok sessions" and "sessions sid = Some state"
      and "refund_status state = ''approved'' \<or> refund_status state = ''denied''"
      and "truthy_dict (image_verdict state)"
  shows "\<exists>state'. fst (run_chats ts (sessions, w)) sid = Some state' \<and>
           refund_status state' = refund_status state \<and>
           image_verdict state' = image_verdict state"
  using assms
proof (induction ts arbitrary: sessions w state)
  case Nil
  then show ?case by simp
next
  case (Cons t ts)
  obtain e r where t: "t = (e, r)" by (cases t)
  obtain sessions1 w1 where next1: "snd (chat e r (sessions, w)) = (sessions1, w1)"
    by (cases "snd (chat e r (sessions, w))")
  from chat_keeps_decided_status [OF Cons.prems, where e = e and r = r and w = w] next1
  obtain state1 where state1: "sessions1 sid = Some state1"
      "refund_status state1 = refund_status state" "image_verdict state1 = image_verdict state"
    by auto
  from Cons.prems(1) next1 have "sessions_ok sessions1"
    using chat_keeps_ok [of sessions e r w] by simp
  from Cons.IH [OF this state1(1)] state1(2,3) Cons.prems(3,4)
  have "\<exists>state'. fst (run_chats ts (sessions1, w1)) sid = Some state' \<and>
         refund_status state' = refund_status state1 \<and>
         image_verdict state' = image_verdict state1"
    by simp
  with state1 t next1 show ?case
    by simp
qed

text \<open>
  Take the state a session holds after any turns since the server started. If its
  \<open>refund_status\<close> is \<open>approved\<close> or \<open>denied\<close> and its stored verdict is a
  non-empty object, then after any later turns (of this or of another session, with
  any message, image or email, and whatever the collaborators answer) the
  \<open>refund_status\<close> of that session is the same.
\<close>

lemma decided_status_is_kept:
  assumes "fst (run_chats before (no_sessions, w)) sid = Some state"
      and "refund_status state = ''approved'' \<or> refund_status state = ''denied''"
      and "truthy_dict (image_verdict state)"
  shows "\<exists>state'. fst (run_chats (before @ later) (no_sessions, w)) sid = Some state' \<and>
           refund_status state' = refund_status state"
proof -
  obtain sessions1 w1 where now: "run_chats before (no_sessions, w) = (sessions1, w1)"
    by (cases "run_chats before (no_sessions, w)")
  have "sessions_ok (fst (no_sessions, w))"
    by (simp add: sessions_ok_def no_sessions_def)
  then have "sessions_ok (fst (run_chats before (no_sessions, w)))"
    by (rule run_chats_ok)
  with now have ok: "sessions_ok sessions1"
    by simp
  from assms(1) now have "sessions1 sid = Some state"
    by simp
  from run_chats_keeps_decided_status [OF ok this assms(2,3), where ts = later and w = w1] now
  show ?thesis
    by (auto simp: run_chats_append)
qed

lemma decided_status_is_kept_example:
  "map_option refund_status
     (fst (run_chats [(shop_with ''refund'' [(''status'', JStr ''acceptable'')], claim_form)]
            (no_sessions, no_world)) ''s1'') = Some ''denied'' \<and>
   map_option (\<lambda>state. truthy_dict (image_verdict state))
     (fst (run_chats [(shop_with ''refund'' [(''status'', JStr ''acceptable'')], claim_form)]
            (no_sessions, no_world)) ''s1'') = Some True \<and>
   map_option refund_status
     (fst (run_chats ([(shop_with ''refund'' [(''status'', JStr ''acceptable'')], claim_form)] @
                      [(approving, form (Some ''please look again'') None None),
                       (approving, form (Some ''XRD12345 was crushed, see the photo'')
                                     (Some ''uploads/s1_again.jpg'') (Some ''a@b.com''))])
            (no_sessions, no_world)) ''s1'') = Some ''denied''"
proof -
  define before where
    "before = [(shop_with ''refund'' [(''status'', JStr ''acceptable'')], claim_form)]"
  have st: "map_option refund_status (fst (run_chats before (no_sessions, no_world)) ''s1'')
      = Some ''denied''"
    unfolding before_def by code_simp
  have vd: "map_option (\<lambda>state. truthy_dict (image_verdict state))
      (fst (run_chats before (no_sessions, no_world)) ''s1'') = Some True"
    unfolding before_def by code_simp
  from st vd obtain state where state:
      "fst (run_chats before (no_sessions, no_world)) ''s1'' = Some state"
      "refund_status state = ''denied''" "truthy_dict (image_verdict state)"
    by auto
  from decided_status_is_kept [OF state(1) _ state(3),
      of "[(approving, form (Some ''please look again'') None None),
           (approving, form (Some ''XRD12345 was crushed, see the photo'')
                         (Some ''uploads/s1_again.jpg'') (Some ''a@b.com''))]"] state(2)
  have "map_option refund_status
     (fst (run_chats (before @
                      [(approving, form (Some ''please look again'') None None),
                       (approving, form (Some ''XRD12345 was crushed, see the photo'')
                                     (Some ''uploads/s1_again.jpg'') (Some ''a@b.com''))])
            (no_sessions, no_world)) ''s1'') = Some ''denied''"
    by auto
  with st vd show ?thesis
    unfolding before_def by simp
qed

section \<open>Where the code departs from the description\<close>

text \<open>
  C2. The vision verifier answers the empty object \<open>{}\<close> in the first turn and
  the Decision denies. The guard of Image Analysis, \<open>if state.get("image_verdict")\<close>,
  takes the stored empty object for no verdict, so in the next turn the verifier is
  asked again; it now answers \<open>defective\<close>, and the Decision turns the status of
  the session from \<open>denied\<close> to \<open>approved\<close>.
\<close>

theorem empty_verdict_status_flips:
  "map_option refund_status
     (fst (run_chats [(shop_with ''refund'' [], claim_form)] (no_sessions, no_world)) ''s1'')
     = Some ''denied'' \<and>
   map_option refund_status
     (fst (run_chats [(shop_with ''refund'' [], claim_form),
                      (shop_with ''refund'' [(''status'', JStr ''defective'')],
                       form (Some ''please look again'') None None)]
            (no_sessions, no_world)) ''s1'')
     = Some ''approved''"
  by code_simp

text \<open>
  C5. The same guard, at the stage itself and in a session. On a state whose
  stored verdict is the empty object, Image Analysis calls the verifier and puts
  its answer in place of the stored verdict. In the session above, the verdict
  after the first turn is \<open>{}\<close> with one call of the verifier made; after the
  second turn there are two calls and another verdict.
\<close>

theorem empty_verdict_analysed_again:
  "image_verdict (claim_state (Some []) ''denied'' None) = Some [] \<and>
   fst (image_analyzer_node approving no_world (claim_state (Some []) ''denied'' None))
     = Inr ((claim_state (Some []) ''denied'' None)
              \<lparr>current_node := ''image_analyzer'',
               image_verdict := Some [(''status'', JStr ''defective''),
                                      (''description'', JStr ''crushed box'')]\<rparr>) \<and>
   length (vision_calls
     (snd (image_analyzer_node approving no_world (claim_state (Some []) ''denied'' None)))) = 1 \<and>
   map_option image_verdict
     (fst (run_chats [(shop_with ''refund'' [], claim_form)] (no_sessions, no_world)) ''s1'')
     = Some (Some []) \<and>
   length (vision_calls
     (snd (run_chats [(shop_with ''refund'' [], claim_form)] (no_sessions, no_world)))) = 1 \<and>
   map_option image_verdict
     (fst (run_chats [(shop_with ''refund'' [], claim_form),
                      (shop_with ''refund'' [(''status'', JStr ''defective'')],
                       form (Some ''please look again'') None None)]
            (no_sessions, no_world)) ''s1'')
     = Some (Some [(''status'', JStr ''defective'')]) \<and>
   length (vision_calls
     (snd (run_chats [(shop_with ''refund'' [], claim_form),
                      (shop_with ''refund'' [(''status'', JStr ''defective'')],
                       form (Some ''please look again'') None None)]
            (no_sessions, no_world)))) = 2"
  by code_simp

text \<open>
  C6. The ledger file holds a JSON value that is not a list (for instance
  \<open>{}\<close>). A claim is denied and the walk reaches the Finalizer: the read
  succeeds, \<open>refunds.append\<close> raises, the request fails and the file is as before,
  with no entry for the denied claim. When the file does not parse, the same request
  writes the entry.
\<close>

theorem non_list_ledger_not_appended:
  "fst (chat (shop_with ''refund'' [(''status'', JStr ''acceptable'')]) claim_form
         (no_sessions, no_world\<lparr>refunds_json := JsonOther\<rparr>))
     = Inl AttributeError \<and>
   visited (snd (snd (chat (shop_with ''refund'' [(''status'', JStr ''acceptable'')]) claim_form
                        (no_sessions, no_world\<lparr>refunds_json := JsonOther\<rparr>))))
     = [IntentReviewer, Collector, ImageAnalyzer, Decision, Finalizer] \<and>
   refunds_json (snd (snd (chat (shop_with ''refund'' [(''status'', JStr ''acceptable'')]) claim_form
                             (no_sessions, no_world\<lparr>refunds_json := JsonOther\<rparr>))))
     = JsonOther \<and>
   refunds_json (snd (snd (chat (shop_with ''refund'' [(''status'', JStr ''acceptable'')]) claim_form
                             (no_sessions, no_world))))
     = JsonList [\<lparr>entry_session_id = ''s1'', entry_order_id = Some ''XRD12345'',
                   entry_status = ''denied'', entry_email = None\<rparr>]"
  by code_simp

text \<open>
  C3. An approved session without an email receives a message without an email.
  Intent Review sets the re-prompt and \<open>needs_input\<close>, but \<open>route_after_intent\<close>
  reads the intent only, which is still \<open>refund\<close>: the walk goes on through
  Collector, Image Analysis and Decision, and the response of the turn is the
  Decision's message.
\<close>

theorem email_reprompt_walk_continues:
  "map_option refund_status
     (fst (run_chats [(approving, claim_form)] (no_sessions, no_world)) ''s1'') = Some ''approved'' \<and>
   map_option email
     (fst (run_chats [(approving, claim_form)] (no_sessions, no_world)) ''s1'') = Some None \<and>
   re_search email_rx ''ok thanks'' = None \<and>
   visited (snd (run_chats [(approving, claim_form)] (no_sessions, no_world)))
     = [IntentReviewer, Collector, ImageAnalyzer, Decision] \<and>
   visited (snd (run_chats [(approving, claim_form),
                            (approving, form (Some ''ok thanks'') None None)]
                   (no_sessions, no_world)))
     = [IntentReviewer, Collector, ImageAnalyzer, Decision,
        IntentReviewer, Collector, ImageAnalyzer, Decision] \<and>
   map_option response_message
     (fst (run_chats [(approving, claim_form),
                      (approving, form (Some ''ok thanks'') None None)]
            (no_sessions, no_world)) ''s1'')
     = Some (check_mark @ '' Refund Approved! Please provide your email address for the receipt.'')"
  by code_simp

text \<open>
  C8. In a new session the message \<open>hello\<close> is classified as \<open>general\<close>. Intent
  Review assigns the user entry to \<open>conversation_history\<close> and then assigns the
  assistant entry to the same key, so the list it returns holds the assistant
  entry only: the history after the walk has no user entry.
\<close>

theorem user_entry_overwritten:
  "history_of (fst (run_chats [(shop_with ''general'' [], form (Some ''hello'') None None)]
                      (no_sessions, no_world))) ''s1''
     = [\<lparr>role = ''assistant'',
         content = ''I can help with refunds or complaints. Do you have an Order ID?''\<rparr>]"
  by code_simp

text \<open>
  C9. The identifier is found without regard to case and bound in upper case, but
  removed from the message by an exact replace. For \<open>xrd12345 bad\<close> the
  identifier found is \<open>xrd12345\<close> and the message without it is \<open>bad\<close>, three
  characters; yet the whole message, identifier included, is bound as the
  complaint. For \<open>XRD12345 bad\<close> no complaint is bound.
\<close>

theorem lowercase_identifier_kept_in_complaint:
  "re_search order_rx ''xrd12345 bad'' = Some ''xrd12345'' \<and>
   strip (replace_empty ''xrd12345 bad'' ''xrd12345'') = ''bad'' \<and>
   map_option order_id
     (fst (run_chats [(shop_with ''refund'' [], form (Some ''xrd12345 bad'') None None)]
            (no_sessions, no_world)) ''s1'') = Some (Some ''XRD12345'') \<and>
   map_option complaint
     (fst (run_chats [(shop_with ''refund'' [], form (Some ''xrd12345 bad'') None None)]
            (no_sessions, no_world)) ''s1'') = Some (Some ''xrd12345 bad'') \<and>
   map_option complaint
     (fst (run_chats [(shop_with ''refund'' [], form (Some ''XRD12345 bad'') None None)]
            (no_sessions, no_world)) ''s1'') = Some None"
  by code_simp

end
